theory Spec2Isabelle
  imports Main
begin

section \<open>The connection pool of \<^verbatim>\<open>apool.cpp\<close>\<close>

text \<open>
  The file keeps one hash from pool names to pool records and six kinds of entry point:
  \<^verbatim>\<open>create\<close>, \<^verbatim>\<open>remove\<close>, the release action \<^verbatim>\<open>pushDatabaseBack\<close>, the two
  overloads of \<^verbatim>\<open>database\<close>, \<^verbatim>\<open>currentConnections\<close> and the four setters. The
  embedding below passes the hash around explicitly, inside a \<open>world\<close> record that also
  holds what the functions read from or do to their surroundings.
\<close>

subsection \<open>Data\<close>

text \<open>
  Pointers are addresses: an \<^verbatim>\<open>ADriver *\<close>, a \<^verbatim>\<open>QObject *\<close> and the object behind a
  \<^verbatim>\<open>shared_ptr<ADriverFactory>\<close> are natural numbers. The factory pointer is taken to
  be non-null, as \<^verbatim>\<open>database\<close> dereferences it unchecked.
\<close>

type_synonym ADriver = nat
type_synonym QObject = nat
type_synonym ADriverFactory = nat

text \<open>
  A \<^verbatim>\<open>std::function<void (ADatabase &)>\<close> is \<open>None\<close> when it is empty and \<open>Some f\<close>
  otherwise. Of the callable \<open>f\<close> the pool can only feel one thing: whether it stores a copy
  of the handle it is called with, so that the shared pointer outlives the call, or not.
  \<open>keeps f\<close> says which; \<open>ident f\<close> tells callables apart. A callable is taken not to call
  into the pool while it runs; what it does to the pool later is a later call.
\<close>

datatype callback = Callback (ident: nat) (keeps: bool)

definition keptBy :: "callback option \<Rightarrow> bool" where
  "keptBy f = (case f of None \<Rightarrow> False | Some g \<Rightarrow> keeps g)"

text \<open>
  Modelled from the spec: the enumeration \<^verbatim>\<open>ADatabase::State\<close> is declared outside this
  file, which only compares a driver's state with \<^verbatim>\<open>Disconnected\<close>.
\<close>

datatype State = Disconnected | Connecting | Connected

text \<open>
  An \<^verbatim>\<open>ADatabase\<close> holds the shared pointer \<^verbatim>\<open>d\<close>. Every non-null pointer this file
  builds carries a deleter that captured a pool name and calls \<^verbatim>\<open>pushDatabaseBack\<close> with
  it, so the pointer is the pair of the driver and that name; \<open>None\<close> is the null pointer of
  a default-constructed handle.
\<close>

datatype ADatabase = ADatabase (d: "(ADriver \<times> string) option")

record APoolQueuedClient =
  cb :: "callback option"
  receiver :: "QObject option"
  checkReceiver :: bool

record APoolInternal =
  driverFactory :: ADriverFactory
  pool :: "ADriver list"
  connectionQueue :: "APoolQueuedClient list"
  setupCb :: "callback option"
  reuseCb :: "callback option"
  maxIdleConnections :: int
  maximuConnections :: int
  connectionCount :: int

text \<open>
  What a call does besides changing the hash is appended to a trace, one event per statement
  with an outside effect and in the order of execution: a logging statement (with the text it
  starts with), \<^verbatim>\<open>delete driver\<close>, a call of \<^verbatim>\<open>createRawDriver\<close> with the pointer it
  returned, a call through \<^verbatim>\<open>setupCb\<close>, through \<^verbatim>\<open>reuseCb\<close> or through a client's
  \<^verbatim>\<open>cb\<close> with the handle passed, and \<^verbatim>\<open>db.open()\<close>.
\<close>

datatype QtMsgType = QtDebugMsg | QtInfoMsg | QtWarningMsg | QtCriticalMsg

datatype event =
    EvLog QtMsgType string
  | EvDelete ADriver
  | EvCreateRawDriver ADriverFactory ADriver
  | EvSetupCb callback ADatabase
  | EvReuseCb callback ADatabase
  | EvClientCb callback ADatabase
  | EvOpen ADatabase

text \<open>
  The \<open>world\<close>: the hash \<^verbatim>\<open>m_connectionPool\<close> of one thread; the state each driver
  object currently reports; the objects already destroyed (a \<^verbatim>\<open>QPointer\<close> to one of them
  reads as null); the next address a factory hands out; and the trace.

  Modelled from the spec: \<^verbatim>\<open>createRawDriver\<close> is implemented outside this file and never
  returns null; here it returns the address \<open>nextDriver\<close> and advances it.
\<close>

record world =
  m_connectionPool :: "string \<rightharpoonup> APoolInternal"
  driverState :: "ADriver \<Rightarrow> State"
  destroyed :: "QObject set"
  nextDriver :: ADriver
  events :: "event list"

definition emit :: "event list \<Rightarrow> world \<Rightarrow> world" where
  "emit es w = w\<lparr>events := events w @ es\<rparr>"

text \<open>Writing through the reference \<^verbatim>\<open>it.value()\<close> updates the hash at that key.\<close>

definition store :: "string \<Rightarrow> APoolInternal \<Rightarrow> world \<Rightarrow> world" where
  "store poolName iPool w = w\<lparr>m_connectionPool := (m_connectionPool w)(poolName \<mapsto> iPool)\<rparr>"

text \<open>\<^verbatim>\<open>QPointer::isNull\<close>: no object was given, or the object has been destroyed since.\<close>

definition isNull :: "QObject set \<Rightarrow> QObject option \<Rightarrow> bool" where
  "isNull dead r = (case r of None \<Rightarrow> True | Some obj \<Rightarrow> obj \<in> dead)"

subsection \<open>The registry\<close>

text \<open>A default-constructed \<^verbatim>\<open>APoolInternal\<close> with the factory assigned.\<close>

definition newPool :: "ADriverFactory \<Rightarrow> APoolInternal" where
  "newPool factory =
     \<lparr>driverFactory = factory, pool = [], connectionQueue = [], setupCb = None,
      reuseCb = None, maxIdleConnections = 1, maximuConnections = 0, connectionCount = 0\<rparr>"

definition create :: "ADriverFactory \<Rightarrow> string \<Rightarrow> world \<Rightarrow> world" where
  "create factory poolName w =
     (if m_connectionPool w poolName = None then store poolName (newPool factory) w
      else emit [EvLog QtWarningMsg ''Ignoring addDatabase, connectionName already available''] w)"

definition addDatabase :: "ADriverFactory \<Rightarrow> string \<Rightarrow> world \<Rightarrow> world" where
  "addDatabase factory poolName w = create factory poolName w"

text \<open>
  \<^verbatim>\<open>QHash::remove\<close> destroys the stored \<^verbatim>\<open>APoolInternal\<close>: a vector of raw pointers and
  a queue of clients, neither of which has a destructor that deletes a driver or calls a
  function object.
\<close>

definition remove :: "string \<Rightarrow> world \<Rightarrow> world" where
  "remove poolName w = w\<lparr>m_connectionPool := (m_connectionPool w)(poolName := None)\<rparr>"

definition currentConnections :: "string \<Rightarrow> world \<Rightarrow> int" where
  "currentConnections poolName w =
     (case m_connectionPool w poolName of Some iPool \<Rightarrow> connectionCount iPool | None \<Rightarrow> 0)"

definition setMaxIdleConnections :: "int \<Rightarrow> string \<Rightarrow> world \<Rightarrow> world" where
  "setMaxIdleConnections maxv poolName w =
     (case m_connectionPool w poolName of
        Some iPool \<Rightarrow> store poolName (iPool\<lparr>maxIdleConnections := maxv\<rparr>) w
      | None \<Rightarrow>
          emit [EvLog QtCriticalMsg
            ''Failed to set maximum idle connections: Database pool NOT FOUND''] w)"

definition setMaxConnections :: "int \<Rightarrow> string \<Rightarrow> world \<Rightarrow> world" where
  "setMaxConnections maxv poolName w =
     (case m_connectionPool w poolName of
        Some iPool \<Rightarrow> store poolName (iPool\<lparr>maximuConnections := maxv\<rparr>) w
      | None \<Rightarrow>
          emit [EvLog QtCriticalMsg
            ''Failed to set maximum connections: Database pool NOT FOUND''] w)"

definition setSetupCallback :: "callback option \<Rightarrow> string \<Rightarrow> world \<Rightarrow> world" where
  "setSetupCallback f poolName w =
     (case m_connectionPool w poolName of
        Some iPool \<Rightarrow> store poolName (iPool\<lparr>setupCb := f\<rparr>) w
      | None \<Rightarrow>
          emit [EvLog QtCriticalMsg
            ''Failed to set maximum connections: Database pool NOT FOUND''] w)"

definition setReuseCallback :: "callback option \<Rightarrow> string \<Rightarrow> world \<Rightarrow> world" where
  "setReuseCallback f poolName w =
     (case m_connectionPool w poolName of
        Some iPool \<Rightarrow> store poolName (iPool\<lparr>reuseCb := f\<rparr>) w
      | None \<Rightarrow>
          emit [EvLog QtCriticalMsg
            ''Failed to set maximum connections: Database pool NOT FOUND''] w)"

definition setDatabaseMaxIdleConnections :: "int \<Rightarrow> string \<Rightarrow> world \<Rightarrow> world" where
  "setDatabaseMaxIdleConnections maxv poolName w = setMaxIdleConnections maxv poolName w"

definition setDatabaseMaximumConnections :: "int \<Rightarrow> string \<Rightarrow> world \<Rightarrow> world" where
  "setDatabaseMaximumConnections maxv poolName w = setMaxConnections maxv poolName w"

subsection \<open>Release\<close>

text \<open>
  The \<^verbatim>\<open>while\<close> loop of \<^verbatim>\<open>pushDatabaseBack\<close>, as a recursion over the queue. Each
  round dequeues the head; a client whose tracked receiver is gone, or whose function object
  is empty, is skipped by \<^verbatim>\<open>continue\<close>. The loop ends at the first other client, giving
  that client and the queue left behind it, or with \<open>None\<close> once the queue has run empty.
\<close>

fun dequeueClient ::
  "QObject set \<Rightarrow> APoolQueuedClient list \<Rightarrow> (callback \<times> APoolQueuedClient list) option"
where
  "dequeueClient dead [] = None"
| "dequeueClient dead (client # queue) =
     (if checkReceiver client \<and> isNull dead (receiver client) then dequeueClient dead queue
      else case cb client of
             None \<Rightarrow> dequeueClient dead queue
           | Some f \<Rightarrow> Some (f, queue))"

text \<open>
  \<^verbatim>\<open>pushDatabaseBack\<close> is the deleter of every shared pointer the pool builds. When it
  finds a waiter it builds the local handle \<^verbatim>\<open>db\<close> on the driver, calls the waiter with it
  and returns, which destroys \<^verbatim>\<open>db\<close>: if the waiter kept no copy, that was the last owner
  and the deleter runs again, inside the same call, on the world the hand-over left. Each
  such round has taken at least one client off the queue.
\<close>

function pushDatabaseBack :: "string \<Rightarrow> ADriver \<Rightarrow> world \<Rightarrow> world" where
  "pushDatabaseBack connectionName driver w =
     (case m_connectionPool w connectionName of
        Some iPool \<Rightarrow>
          if driverState w driver = Disconnected then
            store connectionName (iPool\<lparr>connectionCount := connectionCount iPool - 1\<rparr>)
              (emit [EvLog QtDebugMsg ''Deleting database connection as is not open'',
                     EvDelete driver] w)
          else
            (case dequeueClient (destroyed w) (connectionQueue iPool) of
               Some (f, queue) \<Rightarrow>
                 (let w' = store connectionName (iPool\<lparr>connectionQueue := queue\<rparr>)
                             (emit [EvClientCb f (ADatabase (Some (driver, connectionName)))] w)
                  in if keeps f then w' else pushDatabaseBack connectionName driver w')
             | None \<Rightarrow>
                 if int (length (pool iPool)) \<ge> maxIdleConnections iPool then
                   store connectionName
                     (iPool\<lparr>connectionQueue := [],
                            connectionCount := connectionCount iPool - 1\<rparr>)
                     (emit [EvLog QtDebugMsg
                              ''Deleting database connection due max idle connections'',
                            EvDelete driver] w)
                 else
                   store connectionName
                     (iPool\<lparr>connectionQueue := [], pool := pool iPool @ [driver]\<rparr>)
                     (emit [EvLog QtDebugMsg ''Returning database connection to pool''] w))
      | None \<Rightarrow> emit [EvDelete driver] w)"
  by pat_completeness auto
termination
proof -
  have shorter: "length queue' < length queue"
    if "dequeueClient dead queue = Some (f, queue')" for dead queue f queue'
    using that by (induction queue) (auto split: if_splits option.splits)
  show ?thesis
    by (relation "measure (\<lambda>(n, drv, w).
          case m_connectionPool w n of None \<Rightarrow> 0 | Some p \<Rightarrow> length (connectionQueue p))")
      (auto simp: store_def emit_def dest: shorter)
qed

declare pushDatabaseBack.simps [simp del]

subsection \<open>Acquisition\<close>

text \<open>The events of an optional hook called on a handle.\<close>

definition callSetup :: "callback option \<Rightarrow> ADatabase \<Rightarrow> event list" where
  "callSetup hook db = (case hook of None \<Rightarrow> [] | Some f \<Rightarrow> [EvSetupCb f db])"

definition callReuse :: "callback option \<Rightarrow> ADatabase \<Rightarrow> event list" where
  "callReuse hook db = (case hook of None \<Rightarrow> [] | Some f \<Rightarrow> [EvReuseCb f db])"

definition callClient :: "callback option \<Rightarrow> ADatabase \<Rightarrow> event list" where
  "callClient f db = (case f of None \<Rightarrow> [] | Some g \<Rightarrow> [EvClientCb g db])"

text \<open>
  The synchronous overload returns the handle, so the caller owns it when the call is over.
  \<^verbatim>\<open>takeLast\<close> is only reached on a non-empty vector.
\<close>

definition database :: "string \<Rightarrow> world \<Rightarrow> ADatabase \<times> world" where
  "database poolName w =
     (case m_connectionPool w poolName of
        Some iPool \<Rightarrow>
          if pool iPool = [] then
            if maximuConnections iPool \<noteq> 0 \<and> connectionCount iPool \<ge> maximuConnections iPool
            then
              (ADatabase None,
               emit [EvLog QtWarningMsg ''Maximum number of connections reached'',
                     EvOpen (ADatabase None)] w)
            else
              (let driver = nextDriver w; db = ADatabase (Some (driver, poolName)) in
               (db,
                store poolName (iPool\<lparr>connectionCount := connectionCount iPool + 1\<rparr>)
                  (emit ([EvCreateRawDriver (driverFactory iPool) driver,
                          EvLog QtDebugMsg ''Creating a database connection for pool'']
                         @ callSetup (setupCb iPool) db @ [EvOpen db])
                     (w\<lparr>nextDriver := Suc (nextDriver w)\<rparr>))))
          else
            (let driver = last (pool iPool); db = ADatabase (Some (driver, poolName)) in
             (db,
              store poolName (iPool\<lparr>pool := butlast (pool iPool)\<rparr>)
                (emit ([EvLog QtDebugMsg ''Reusing a database connection from pool'']
                       @ callReuse (reuseCb iPool) db @ [EvOpen db]) w)))
      | None \<Rightarrow>
          (ADatabase None,
           emit [EvLog QtCriticalMsg ''Database pool NOT FOUND'',
                 EvOpen (ADatabase None)] w))"

text \<open>
  The overload taking a continuation returns nothing: the handle it builds is seen in the
  trace. When the pool is at its maximum the request is queued and the function returns
  before \<^verbatim>\<open>db.open()\<close>. Otherwise the local handle \<^verbatim>\<open>db\<close> is destroyed when the
  function returns: if neither the hook nor the continuation kept a copy, or there was no
  continuation, the deleter runs and the driver goes back through \<^verbatim>\<open>pushDatabaseBack\<close>
  before the call is over. A handle with a null pointer has no deleter.
\<close>

definition database_cb ::
  "callback option \<Rightarrow> QObject option \<Rightarrow> string \<Rightarrow> world \<Rightarrow> world"
where
  "database_cb f recv poolName w =
     (case m_connectionPool w poolName of
        Some iPool \<Rightarrow>
          if pool iPool = [] then
            if maximuConnections iPool \<noteq> 0 \<and> connectionCount iPool \<ge> maximuConnections iPool
            then
              store poolName
                (iPool\<lparr>connectionQueue := connectionQueue iPool @
                    [\<lparr>cb = f, receiver = recv, checkReceiver = (recv \<noteq> None)\<rparr>]\<rparr>)
                (emit [EvLog QtInfoMsg ''Maximum number of connections reached, queuing''] w)
            else
              (let driver = nextDriver w; db = ADatabase (Some (driver, poolName));
                   w' = store poolName (iPool\<lparr>connectionCount := connectionCount iPool + 1\<rparr>)
                          (emit ([EvLog QtDebugMsg ''Creating a database connection for pool'',
                                  EvCreateRawDriver (driverFactory iPool) driver]
                                 @ callSetup (setupCb iPool) db @ [EvOpen db] @ callClient f db)
                             (w\<lparr>nextDriver := Suc (nextDriver w)\<rparr>))
               in if keptBy (setupCb iPool) \<or> keptBy f then w'
                  else pushDatabaseBack poolName driver w')
          else
            (let driver = last (pool iPool); db = ADatabase (Some (driver, poolName));
                 w' = store poolName (iPool\<lparr>pool := butlast (pool iPool)\<rparr>)
                        (emit ([EvLog QtDebugMsg ''Reusing a database connection from pool'']
                               @ callReuse (reuseCb iPool) db @ [EvOpen db] @ callClient f db) w)
             in if keptBy (reuseCb iPool) \<or> keptBy f then w'
                else pushDatabaseBack poolName driver w')
      | None \<Rightarrow>
          emit ([EvLog QtCriticalMsg ''Database pool NOT FOUND'', EvOpen (ADatabase None)]
                @ callClient f (ADatabase None)) w)"

subsection \<open>Concrete worlds\<close>

text \<open>A thread that has not touched the pool yet, and the driver state as the network sets it.\<close>

definition init_world :: world where
  "init_world =
     \<lparr>m_connectionPool = Map.empty, driverState = (\<lambda>_. Disconnected), destroyed = {},
      nextDriver = 0, events = []\<rparr>"

definition setDriverState :: "ADriver \<Rightarrow> State \<Rightarrow> world \<Rightarrow> world" where
  "setDriverState driver st w = w\<lparr>driverState := (driverState w)(driver := st)\<rparr>"

definition destroyObject :: "QObject \<Rightarrow> world \<Rightarrow> world" where
  "destroyObject obj w = w\<lparr>destroyed := insert obj (destroyed w)\<rparr>"

subsection \<open>Callers\<close>

text \<open>
  The claims about checked-out connections need the callers' side: which handles are alive.
  A \<open>system\<close> is a world together with the shared pointers that have an owner outside the
  pool. An \<open>operation\<close> is one call from outside, all on the one thread whose hash the
  world holds: an entry point of the file, the last owner dropping a handle (which runs the
  deleter, so \<^verbatim>\<open>pushDatabaseBack\<close>), a driver changing its state, or a receiver object
  being destroyed.
\<close>

record system =
  theWorld :: world
  held :: "(ADriver \<times> string) list"

datatype operation =
    Create ADriverFactory string
  | Acquire string
  | AcquireCb "callback option" "QObject option" string
  | Release ADriver string
  | SetMaxIdle int string
  | SetMaxTotal int string
  | SetSetupHook "callback option" string
  | SetReuseHook "callback option" string
  | DriverReports ADriver State
  | ObjectDies QObject

text \<open>The events a call added to the trace.\<close>

definition since :: "world \<Rightarrow> world \<Rightarrow> event list" where
  "since w w' = drop (length (events w)) (events w')"

text \<open>The non-null pointers among the handles that were opened.\<close>

fun opened :: "event list \<Rightarrow> (ADriver \<times> string) list" where
  "opened [] = []"
| "opened (EvOpen db # es) = (case d db of None \<Rightarrow> opened es | Some h \<Rightarrow> h # opened es)"
| "opened (e # es) = opened es"

text \<open>Whether a client's function object was called.\<close>

fun passedOn :: "event list \<Rightarrow> bool" where
  "passedOn [] = False"
| "passedOn (EvClientCb f db # es) = True"
| "passedOn (e # es) = passedOn es"

text \<open>Whether some callable that was called kept the handle it was given.\<close>

fun retained :: "event list \<Rightarrow> bool" where
  "retained [] = False"
| "retained (EvSetupCb f db # es) = (keeps f \<or> retained es)"
| "retained (EvReuseCb f db # es) = (keeps f \<or> retained es)"
| "retained (EvClientCb f db # es) = (keeps f \<or> retained es)"
| "retained (e # es) = retained es"

text \<open>
  The synchronous acquisition hands its pointer to the caller. The other one leaves a pointer
  with an owner only if a callable kept it. A handle can only be released while it is held;
  the release of any other is not a step. A release in which a waiter keeps the driver
  builds a new pointer to the same driver with the same pool name, so the list of held
  pointers stays as it is.
\<close>

fun apply_op :: "operation \<Rightarrow> system \<Rightarrow> system" where
  "apply_op (Create factory n) s = s\<lparr>theWorld := create factory n (theWorld s)\<rparr>"
| "apply_op (Acquire n) s =
     (case database n (theWorld s) of
        (db, w') \<Rightarrow>
          \<lparr>theWorld = w',
           held = (case d db of None \<Rightarrow> held s | Some h \<Rightarrow> h # held s)\<rparr>)"
| "apply_op (AcquireCb f recv n) s =
     (let w' = database_cb f recv n (theWorld s)
      in \<lparr>theWorld = w',
          held = (if retained (since (theWorld s) w')
                  then opened (since (theWorld s) w') @ held s else held s)\<rparr>)"
| "apply_op (Release driver n) s =
     (if (driver, n) \<in> set (held s) then
        (let w' = pushDatabaseBack n driver (theWorld s)
         in \<lparr>theWorld = w',
             held = (if retained (since (theWorld s) w') then held s
                     else remove1 (driver, n) (held s))\<rparr>)
      else s)"
| "apply_op (SetMaxIdle maxv n) s = s\<lparr>theWorld := setMaxIdleConnections maxv n (theWorld s)\<rparr>"
| "apply_op (SetMaxTotal maxv n) s = s\<lparr>theWorld := setMaxConnections maxv n (theWorld s)\<rparr>"
| "apply_op (SetSetupHook f n) s = s\<lparr>theWorld := setSetupCallback f n (theWorld s)\<rparr>"
| "apply_op (SetReuseHook f n) s = s\<lparr>theWorld := setReuseCallback f n (theWorld s)\<rparr>"
| "apply_op (DriverReports driver st) s = s\<lparr>theWorld := setDriverState driver st (theWorld s)\<rparr>"
| "apply_op (ObjectDies obj) s = s\<lparr>theWorld := destroyObject obj (theWorld s)\<rparr>"

fun run :: "operation list \<Rightarrow> system \<Rightarrow> system" where
  "run [] s = s"
| "run (x # xs) s = run xs (apply_op x s)"

definition init_system :: system where
  "init_system = \<lparr>theWorld = init_world, held = []\<rparr>"

definition checkedOut :: "string \<Rightarrow> system \<Rightarrow> nat" where
  "checkedOut n s = length (filter (\<lambda>h. snd h = n) (held s))"

text \<open>
  The three invariants of the specification, for the pool of one name: the count is the
  number of idle drivers plus the number of pointers held under the name; the idle list is
  no longer than the idle limit; the count is within the total limit unless that is zero.
  A name with no pool has nothing to violate.
\<close>

definition countHolds :: "string \<Rightarrow> system \<Rightarrow> bool" where
  "countHolds n s =
     (case m_connectionPool (theWorld s) n of
        None \<Rightarrow> True
      | Some p \<Rightarrow> connectionCount p = int (length (pool p)) + int (checkedOut n s))"

definition idleLimitHolds :: "string \<Rightarrow> system \<Rightarrow> bool" where
  "idleLimitHolds n s =
     (case m_connectionPool (theWorld s) n of
        None \<Rightarrow> True
      | Some p \<Rightarrow> int (length (pool p)) \<le> maxIdleConnections p)"

definition totalLimitHolds :: "string \<Rightarrow> system \<Rightarrow> bool" where
  "totalLimitHolds n s =
     (case m_connectionPool (theWorld s) n of
        None \<Rightarrow> True
      | Some p \<Rightarrow> maximuConnections p = 0 \<or> connectionCount p \<le> maximuConnections p)"

definition invariant :: "string \<Rightarrow> system \<Rightarrow> bool" where
  "invariant n s \<longleftrightarrow> countHolds n s \<and> idleLimitHolds n s \<and> totalLimitHolds n s"

text \<open>Every held pointer names a pool of the hash: no pool is removed in a run.\<close>

definition heldRegistered :: "system \<Rightarrow> bool" where
  "heldRegistered s \<longleftrightarrow> (\<forall>h\<in>set (held s). m_connectionPool (theWorld s) (snd h) \<noteq> None)"

text \<open>
  An operation that does not put the idle limit of the pool named \<open>n\<close> below the number of
  its idle drivers, and one that does not put its total limit, unless to zero, below its
  count. Only the two setters, called for that pool, can fail these. \<open>allAlong\<close> asks it of
  every operation of a sequence, in the state the operation meets.
\<close>

fun keepsIdleLimit :: "string \<Rightarrow> operation \<Rightarrow> system \<Rightarrow> bool" where
  "keepsIdleLimit n (SetMaxIdle maxv n') s =
     (if n' = n then
        (case m_connectionPool (theWorld s) n of
           None \<Rightarrow> True
         | Some p \<Rightarrow> int (length (pool p)) \<le> maxv)
      else True)"
| "keepsIdleLimit n x s = True"

fun keepsTotalLimit :: "string \<Rightarrow> operation \<Rightarrow> system \<Rightarrow> bool" where
  "keepsTotalLimit n (SetMaxTotal maxv n') s =
     (if n' = n then
        (case m_connectionPool (theWorld s) n of
           None \<Rightarrow> True
         | Some p \<Rightarrow> maxv = 0 \<or> connectionCount p \<le> maxv)
      else True)"
| "keepsTotalLimit n x s = True"

fun allAlong :: "(operation \<Rightarrow> system \<Rightarrow> bool) \<Rightarrow> operation list \<Rightarrow> system \<Rightarrow> bool" where
  "allAlong ok [] s = True"
| "allAlong ok (x # xs) s = (ok x s \<and> allAlong ok xs (apply_op x s))"

text \<open>
  How a call may change a pool while the number of pointers held under its name changes by
  \<open>k\<close>: the limits stay; the count less the number of idle drivers changes by \<open>k\<close>; the idle
  list does not grow, or stays within the idle limit; the count does not grow, or stays
  within the total limit.
\<close>

definition delta :: "APoolInternal \<Rightarrow> APoolInternal \<Rightarrow> int \<Rightarrow> bool" where
  "delta p p' k \<longleftrightarrow>
     maxIdleConnections p' = maxIdleConnections p \<and>
     maximuConnections p' = maximuConnections p \<and>
     connectionCount p' - int (length (pool p')) =
       connectionCount p - int (length (pool p)) + k \<and>
     (length (pool p') \<le> length (pool p) \<or>
      int (length (pool p')) \<le> maxIdleConnections p) \<and>
     (connectionCount p' \<le> connectionCount p \<or> maximuConnections p = 0 \<or>
      connectionCount p' \<le> maximuConnections p)"

subsection \<open>Words of the specification\<close>

text \<open>
  A valid waiter, in the specification's words: its liveness token is alive or not tracked,
  and its continuation is present.
\<close>

definition validWaiter :: "QObject set \<Rightarrow> APoolQueuedClient \<Rightarrow> bool" where
  "validWaiter dead client \<longleftrightarrow>
     (\<not> checkReceiver client \<or> \<not> isNull dead (receiver client)) \<and> cb client \<noteq> None"

text \<open>A call through one of the pool's two hooks.\<close>

fun isHookCall :: "event \<Rightarrow> bool" where
  "isHookCall (EvSetupCb f db) = True"
| "isHookCall (EvReuseCb f db) = True"
| "isHookCall e = False"

subsection \<open>Scenarios\<close>

text \<open>
  Pool \<open>p1\<close> with a total limit of one: its only connection is checked out and connected,
  and four requests are queued behind it. The first is tracked by an object that has died
  since, the second has no continuation, the third and fourth are in order.
\<close>

definition scenario_p1 :: system where
  "scenario_p1 =
     run [Create 7 ''p1'', SetMaxTotal 1 ''p1'', Acquire ''p1'', DriverReports 0 Connected,
          AcquireCb (Some (Callback 11 True)) (Some 3) ''p1'', AcquireCb None None ''p1'',
          AcquireCb (Some (Callback 12 True)) None ''p1'',
          AcquireCb (Some (Callback 13 True)) None ''p1'',
          ObjectDies 3] init_system"

text \<open>Pool \<open>p3\<close> removed while its connection is checked out.\<close>

definition scenario_p3 :: world where
  "scenario_p3 =
     remove ''p3''
       (setDriverState 0 Connected (snd (database ''p3'' (create 7 ''p3'' init_world))))"

text \<open>Pool \<open>p4\<close> with a total limit of five.\<close>

definition scenario_p4 :: world where
  "scenario_p4 = setMaxConnections 5 ''p4'' (create 7 ''p4'' init_world)"

text \<open>
  Pool \<open>p2\<close> with an idle limit of zero and a total limit of one, its connection checked
  out, and one queued request whose receiver has died.
\<close>

definition scenario_p2 :: system where
  "scenario_p2 =
     run [Create 7 ''p2'', SetMaxIdle 0 ''p2'', SetMaxTotal 1 ''p2'', Acquire ''p2'',
          DriverReports 0 Connected, AcquireCb (Some (Callback 11 True)) (Some 3) ''p2'',
          ObjectDies 3] init_system"

text \<open>
  Pool \<open>p5\<close> with both hooks set and two idle drivers, driver 1 returned last. Pool \<open>p6\<close>
  fresh, with a setup hook and a total limit of three.
\<close>

definition scenario_p5 :: system where
  "scenario_p5 =
     run [Create 7 ''p5'', SetMaxIdle 2 ''p5'', SetSetupHook (Some (Callback 21 True)) ''p5'',
          SetReuseHook (Some (Callback 22 True)) ''p5'', Acquire ''p5'', Acquire ''p5'',
          DriverReports 0 Connected, DriverReports 1 Connected,
          Release 0 ''p5'', Release 1 ''p5''] init_system"

definition scenario_p6 :: world where
  "scenario_p6 =
     setMaxConnections 3 ''p6''
       (setSetupCallback (Some (Callback 21 True)) ''p6'' (create 7 ''p6'' init_world))"

text \<open>
  Pool \<open>p7\<close> with a total limit of one, its connection checked out and connected, and one
  request queued whose continuation does not keep the handle it is given.
\<close>

definition scenario_p7 :: system where
  "scenario_p7 =
     run [Create 7 ''p7'', SetMaxTotal 1 ''p7'', Acquire ''p7'', DriverReports 0 Connected,
          AcquireCb (Some (Callback 12 False)) None ''p7''] init_system"

text \<open>
  Three runs. In the first the idle limit of pool \<open>p\<close> is set to zero while two drivers are
  idle, and one of them is then taken and returned. In the second the total limit of \<open>p\<close>
  is set to one while two connections are out. The third has two pools: no setter goes below
  what pool \<open>p\<close> holds, where a queued request is served by a release, a continuation that
  keeps nothing sends its driver straight back, and both drivers end on the idle list;
  meanwhile the idle limit of pool \<open>q\<close> is put below its one idle driver.
\<close>

definition lowered_idle :: "operation list" where
  "lowered_idle =
     [Create 7 ''p'', SetMaxIdle 2 ''p'', Acquire ''p'', Acquire ''p'',
      DriverReports 0 Connected, DriverReports 1 Connected,
      Release 0 ''p'', Release 1 ''p'', SetMaxIdle 0 ''p'', Acquire ''p'', Release 1 ''p'']"

definition lowered_total :: "operation list" where
  "lowered_total = [Create 7 ''p'', Acquire ''p'', Acquire ''p'', SetMaxTotal 1 ''p'']"

definition steady :: "operation list" where
  "steady =
     [Create 7 ''p'', Create 8 ''q'', SetMaxIdle 2 ''p'', SetMaxTotal 2 ''p'',
      Acquire ''p'', Acquire ''p'', AcquireCb (Some (Callback 11 True)) None ''p'',
      DriverReports 0 Connected, DriverReports 1 Connected,
      Release 0 ''p'', Release 0 ''p'', Release 1 ''p'',
      AcquireCb (Some (Callback 14 False)) None ''p'',
      Acquire ''q'', DriverReports 2 Connected, Release 2 ''q'', SetMaxIdle 0 ''q'',
      SetMaxIdle 3 ''p'', SetMaxTotal 0 ''p'', Acquire ''p'']"

section \<open>Properties\<close>

subsection \<open>Helper facts\<close>

lemmas run_defs =
  init_system_def init_world_def create_def newPool_def
  setMaxConnections_def setMaxIdleConnections_def setSetupCallback_def setReuseCallback_def
  database_def database_cb_def pushDatabaseBack.simps
  setDriverState_def destroyObject_def store_def emit_def callSetup_def callReuse_def
  callClient_def since_def isNull_def keptBy_def Let_def

lemma dequeueClient_skip:
  "\<forall>c\<in>set skipped. \<not> validWaiter dead c \<Longrightarrow>
   dequeueClient dead (skipped @ queue) = dequeueClient dead queue"
  by (induction skipped) (auto simp: validWaiter_def split: option.splits)

lemma dequeueClient_valid:
  "validWaiter dead client \<Longrightarrow>
   \<exists>f. cb client = Some f \<and> dequeueClient dead (client # queue) = Some (f, queue)"
  by (auto simp: validWaiter_def)

lemma dequeueClient_none:
  "\<forall>c\<in>set queue. \<not> validWaiter dead c \<Longrightarrow> dequeueClient dead queue = None"
  using dequeueClient_skip [of queue dead "[]"] by simp

lemma scenario_p1_pool:
  "m_connectionPool (theWorld scenario_p1) ''p1'' =
     Some \<lparr>driverFactory = 7, pool = [],
           connectionQueue =
             [\<lparr>cb = Some (Callback 11 True), receiver = Some 3, checkReceiver = True\<rparr>,
              \<lparr>cb = None, receiver = None, checkReceiver = False\<rparr>,
              \<lparr>cb = Some (Callback 12 True), receiver = None, checkReceiver = False\<rparr>,
              \<lparr>cb = Some (Callback 13 True), receiver = None, checkReceiver = False\<rparr>],
           setupCb = None, reuseCb = None, maxIdleConnections = 1,
           maximuConnections = 1, connectionCount = 1\<rparr>"
  by (simp add: scenario_p1_def run_defs)

lemma scenario_p1_env:
  "driverState (theWorld scenario_p1) 0 = Connected"
  "destroyed (theWorld scenario_p1) = {3}"
  by (simp_all add: scenario_p1_def run_defs)

lemma scenario_p7_pool:
  "m_connectionPool (theWorld scenario_p7) ''p7'' =
     Some \<lparr>driverFactory = 7, pool = [],
           connectionQueue =
             [\<lparr>cb = Some (Callback 12 False), receiver = None, checkReceiver = False\<rparr>],
           setupCb = None, reuseCb = None, maxIdleConnections = 1,
           maximuConnections = 1, connectionCount = 1\<rparr>"
  by (simp add: scenario_p7_def run_defs)

lemma scenario_p7_env:
  "driverState (theWorld scenario_p7) 0 = Connected"
  "destroyed (theWorld scenario_p7) = {}"
  by (simp_all add: scenario_p7_def run_defs)

lemma scenario_p2_pool:
  "m_connectionPool (theWorld scenario_p2) ''p2'' =
     Some \<lparr>driverFactory = 7, pool = [],
           connectionQueue = [\<lparr>cb = Some (Callback 11 True), receiver = Some 3, checkReceiver = True\<rparr>],
           setupCb = None, reuseCb = None, maxIdleConnections = 0,
           maximuConnections = 1, connectionCount = 1\<rparr>"
  by (simp add: scenario_p2_def run_defs)

lemma scenario_p2_env:
  "driverState (theWorld scenario_p2) 0 = Connected"
  "destroyed (theWorld scenario_p2) = {3}"
  by (simp_all add: scenario_p2_def run_defs)

lemma scenario_p4_pool:
  "m_connectionPool scenario_p4 ''p4'' =
     Some \<lparr>driverFactory = 7, pool = [], connectionQueue = [], setupCb = None,
           reuseCb = None, maxIdleConnections = 1, maximuConnections = 5,
           connectionCount = 0\<rparr>"
  "nextDriver scenario_p4 = 0"
  "driverState scenario_p4 0 = Disconnected"
  by (simp_all add: scenario_p4_def run_defs)

lemma scenario_p5_pool:
  "m_connectionPool (theWorld scenario_p5) ''p5'' =
     Some \<lparr>driverFactory = 7, pool = [0, 1], connectionQueue = [],
           setupCb = Some (Callback 21 True), reuseCb = Some (Callback 22 True),
           maxIdleConnections = 2, maximuConnections = 0, connectionCount = 2\<rparr>"
  by (simp add: scenario_p5_def run_defs)

lemma scenario_p6_pool:
  "m_connectionPool scenario_p6 ''p6'' =
     Some \<lparr>driverFactory = 7, pool = [], connectionQueue = [],
           setupCb = Some (Callback 21 True), reuseCb = None, maxIdleConnections = 1,
           maximuConnections = 3, connectionCount = 0\<rparr>"
  "nextDriver scenario_p6 = 0"
  by (simp_all add: scenario_p6_def run_defs)

lemma lowered_idle_pool:
  "m_connectionPool (theWorld (run lowered_idle init_system)) ''p'' =
     Some \<lparr>driverFactory = 7, pool = [0], connectionQueue = [], setupCb = None,
           reuseCb = None, maxIdleConnections = 0, maximuConnections = 0,
           connectionCount = 1\<rparr>"
  by (simp add: lowered_idle_def run_defs)

lemma lowered_total_pool:
  "m_connectionPool (theWorld (run lowered_total init_system)) ''p'' =
     Some \<lparr>driverFactory = 7, pool = [], connectionQueue = [], setupCb = None,
           reuseCb = None, maxIdleConnections = 1, maximuConnections = 1,
           connectionCount = 2\<rparr>"
  by (simp add: lowered_total_def run_defs)

subsection \<open>What a release and an acquisition leave behind\<close>

text \<open>
  A release may run through several waiters before it ends. The facts below say what any
  release, and any acquisition that ends in one, does to the trace and to the pools, without
  following the rounds one by one.
\<close>

lemma butlast_int [simp]: "xs \<noteq> [] \<Longrightarrow> int (length xs - Suc 0) = int (length xs) - 1"
  by (cases xs) auto

lemma opened_append: "opened (xs @ ys) = opened xs @ opened ys"
  by (induction xs rule: opened.induct) (auto split: option.splits)

lemma retained_append: "retained (xs @ ys) \<longleftrightarrow> retained xs \<or> retained ys"
  by (induction xs rule: retained.induct) auto

lemma retained_calls [simp]:
  "retained (callSetup h db) = keptBy h"
  "retained (callReuse h db) = keptBy h"
  "retained (callClient h db) = keptBy h"
  by (simp_all add: callSetup_def callReuse_def callClient_def keptBy_def split: option.splits)

lemma opened_calls [simp]:
  "opened (callSetup h db) = []" "opened (callReuse h db) = []" "opened (callClient h db) = []"
  by (simp_all add: callSetup_def callReuse_def callClient_def split: option.splits)

lemma hooks_calls [simp]:
  "filter isHookCall (callSetup h db) = callSetup h db"
  "filter isHookCall (callReuse h db) = callReuse h db"
  "filter isHookCall (callClient h db) = []"
  by (simp_all add: callSetup_def callReuse_def callClient_def split: option.splits)

lemma delta_queue [simp]:
  "delta (p\<lparr>connectionQueue := q\<rparr>) p' k = delta p p' k"
  "delta p (p'\<lparr>connectionQueue := q\<rparr>) k = delta p p' k"
  by (simp_all add: delta_def)

lemma release_effect:
  "\<exists>es. events (pushDatabaseBack n drv w) = events w @ es \<and>
        filter isHookCall es = [] \<and> opened es = [] \<and>
        (\<forall>n'. n' \<noteq> n \<longrightarrow>
           m_connectionPool (pushDatabaseBack n drv w) n' = m_connectionPool w n') \<and>
        (case m_connectionPool w n of
           None \<Rightarrow> m_connectionPool (pushDatabaseBack n drv w) n = None \<and> \<not> retained es
         | Some p \<Rightarrow>
             (\<exists>p'. m_connectionPool (pushDatabaseBack n drv w) n = Some p' \<and>
                   delta p p' (if retained es then 0 else - 1)))"
proof (induction n drv w rule: pushDatabaseBack.induct)
  case (1 n drv w)
  show ?case
  proof (cases "m_connectionPool w n")
    case None
    then show ?thesis
      by (subst (1 2 3) pushDatabaseBack.simps) (simp add: emit_def)
  next
    case (Some p)
    show ?thesis
    proof (cases "driverState w drv = Disconnected")
      case True
      with Some show ?thesis
        by (subst (1 2 3) pushDatabaseBack.simps) (simp add: emit_def store_def delta_def)
    next
      case connected: False
      show ?thesis
      proof (cases "dequeueClient (destroyed w) (connectionQueue p)")
        case None
        with Some connected show ?thesis
          by (subst (1 2 3) pushDatabaseBack.simps) (simp add: emit_def store_def delta_def)
      next
        case hand: (Some a)
        obtain f queue where a: "a = (f, queue)" by (cases a)
        define w1 where "w1 =
          store n (p\<lparr>connectionQueue := queue\<rparr>)
            (emit [EvClientCb f (ADatabase (Some (drv, n)))] w)"
        show ?thesis
        proof (cases "keeps f")
          case True
          with Some connected hand a show ?thesis
            by (subst (1 2 3) pushDatabaseBack.simps)
              (simp add: emit_def store_def delta_def)
        next
          case False
          have unfold: "pushDatabaseBack n drv w = pushDatabaseBack n drv w1"
            using Some connected hand a False
            by (subst pushDatabaseBack.simps) (simp add: w1_def)
          from "1.IH" [OF Some connected hand [unfolded a] refl w1_def False]
          obtain es where es: "events (pushDatabaseBack n drv w1) = events w1 @ es"
            "filter isHookCall es = []" "opened es = []"
            "\<forall>n'. n' \<noteq> n \<longrightarrow> m_connectionPool (pushDatabaseBack n drv w1) n' = m_connectionPool w1 n'"
            "\<exists>p'. m_connectionPool (pushDatabaseBack n drv w1) n = Some p' \<and>
                  delta p p' (if retained es then 0 else - 1)"
            by (auto simp: w1_def store_def emit_def)
          let ?es = "EvClientCb f (ADatabase (Some (drv, n))) # es"
          from es False Some have "events (pushDatabaseBack n drv w) = events w @ ?es"
            "filter isHookCall ?es = []" "opened ?es = []"
            "\<forall>n'. n' \<noteq> n \<longrightarrow> m_connectionPool (pushDatabaseBack n drv w) n' = m_connectionPool w n'"
            "\<exists>p'. m_connectionPool (pushDatabaseBack n drv w) n = Some p' \<and>
                  delta p p' (if retained ?es then 0 else - 1)"
            by (simp_all add: unfold w1_def store_def emit_def)
          with Some show ?thesis by (intro exI [of _ ?es]) simp
        qed
      qed
    qed
  qed
qed

lemma acquire_cb_effect:
  "\<exists>es. events (database_cb f recv n w) = events w @ es \<and>
        filter isHookCall es =
          (case m_connectionPool w n of
             None \<Rightarrow> []
           | Some p \<Rightarrow>
               if pool p = [] then
                 if maximuConnections p \<noteq> 0 \<and> connectionCount p \<ge> maximuConnections p
                 then []
                 else callSetup (setupCb p) (ADatabase (Some (nextDriver w, n)))
               else callReuse (reuseCb p) (ADatabase (Some (last (pool p), n)))) \<and>
        (\<forall>h\<in>set (opened es). snd h = n) \<and>
        (\<forall>n'. n' \<noteq> n \<longrightarrow>
           m_connectionPool (database_cb f recv n w) n' = m_connectionPool w n') \<and>
        (case m_connectionPool w n of
           None \<Rightarrow> m_connectionPool (database_cb f recv n w) n = None \<and> opened es = []
         | Some p \<Rightarrow>
             (\<exists>p'. m_connectionPool (database_cb f recv n w) n = Some p' \<and>
                   delta p p' (if retained es then int (length (opened es)) else 0)))"
proof (cases "m_connectionPool w n")
  case None
  then show ?thesis by (simp add: database_cb_def emit_def)
next
  case (Some p)
  show ?thesis
  proof (cases "pool p = []")
    case empty: True
    show ?thesis
    proof (cases "maximuConnections p \<noteq> 0 \<and> connectionCount p \<ge> maximuConnections p")
      case True
      with Some empty show ?thesis
        by (simp add: database_cb_def emit_def store_def delta_def)
    next
      case room: False
      define db where "db = ADatabase (Some (nextDriver w, n))"
      define es1 where "es1 =
        [EvLog QtDebugMsg ''Creating a database connection for pool'',
         EvCreateRawDriver (driverFactory p) (nextDriver w)]
        @ callSetup (setupCb p) db @ [EvOpen db] @ callClient f db"
      define p1 where "p1 = p\<lparr>connectionCount := connectionCount p + 1\<rparr>"
      define w1 where "w1 = store n p1 (emit es1 (w\<lparr>nextDriver := Suc (nextDriver w)\<rparr>))"
      have res: "database_cb f recv n w =
          (if keptBy (setupCb p) \<or> keptBy f then w1 else pushDatabaseBack n (nextDriver w) w1)"
        using Some empty room
        by (auto simp: database_cb_def Let_def w1_def p1_def es1_def db_def)
      have open1: "opened es1 = [(nextDriver w, n)]" "retained es1 = (keptBy (setupCb p) \<or> keptBy f)"
        "filter isHookCall es1 = callSetup (setupCb p) (ADatabase (Some (nextDriver w, n)))"
        by (simp_all add: es1_def opened_append retained_append db_def)
      have w1: "events w1 = events w @ es1" "m_connectionPool w1 n = Some p1"
        "\<forall>n'. n' \<noteq> n \<longrightarrow> m_connectionPool w1 n' = m_connectionPool w n'"
        by (simp_all add: w1_def store_def emit_def)
      have d1: "delta p p1 1"
        using room by (auto simp: delta_def p1_def)
      show ?thesis
      proof (cases "keptBy (setupCb p) \<or> keptBy f")
        case True
        with res w1 open1 d1 Some empty room show ?thesis
          by (intro exI [of _ es1]) auto
      next
        case False
        from release_effect [of n "nextDriver w" w1] w1
        obtain es p' where es: "events (pushDatabaseBack n (nextDriver w) w1) = events w1 @ es"
          "opened es = []" "filter isHookCall es = []"
          "\<forall>n'. n' \<noteq> n \<longrightarrow> m_connectionPool (pushDatabaseBack n (nextDriver w) w1) n' =
               m_connectionPool w1 n'"
          "m_connectionPool (pushDatabaseBack n (nextDriver w) w1) n = Some p'"
          "delta p1 p' (if retained es then 0 else - 1)"
          by auto
        from d1 es(6) room have "delta p p' (if retained es then 1 else 0)"
          by (auto simp: delta_def p1_def)
        with False res w1 open1 es Some empty room show ?thesis
          by (intro exI [of _ "es1 @ es"])
            (auto simp: opened_append retained_append split: if_splits)
      qed
    qed
  next
    case idle: False
    define db where "db = ADatabase (Some (last (pool p), n))"
    define es1 where "es1 =
      [EvLog QtDebugMsg ''Reusing a database connection from pool'']
      @ callReuse (reuseCb p) db @ [EvOpen db] @ callClient f db"
    define p1 where "p1 = p\<lparr>pool := butlast (pool p)\<rparr>"
    define w1 where "w1 = store n p1 (emit es1 w)"
    have res: "database_cb f recv n w =
        (if keptBy (reuseCb p) \<or> keptBy f then w1 else pushDatabaseBack n (last (pool p)) w1)"
      using Some idle
      by (simp add: database_cb_def Let_def w1_def p1_def es1_def db_def)
    have open1: "opened es1 = [(last (pool p), n)]" "retained es1 = (keptBy (reuseCb p) \<or> keptBy f)"
      "filter isHookCall es1 = callReuse (reuseCb p) (ADatabase (Some (last (pool p), n)))"
      by (simp_all add: es1_def opened_append retained_append db_def)
    have w1: "events w1 = events w @ es1" "m_connectionPool w1 n = Some p1"
      "\<forall>n'. n' \<noteq> n \<longrightarrow> m_connectionPool w1 n' = m_connectionPool w n'"
      by (simp_all add: w1_def store_def emit_def)
    have d1: "delta p p1 1"
      using idle by (auto simp: delta_def p1_def)
    show ?thesis
    proof (cases "keptBy (reuseCb p) \<or> keptBy f")
      case True
      with res w1 open1 d1 Some idle show ?thesis
        by (intro exI [of _ es1]) auto
    next
      case False
      from release_effect [of n "last (pool p)" w1] w1
      obtain es p' where es: "events (pushDatabaseBack n (last (pool p)) w1) = events w1 @ es"
        "opened es = []" "filter isHookCall es = []"
        "\<forall>n'. n' \<noteq> n \<longrightarrow> m_connectionPool (pushDatabaseBack n (last (pool p)) w1) n' =
             m_connectionPool w1 n'"
        "m_connectionPool (pushDatabaseBack n (last (pool p)) w1) n = Some p'"
        "delta p1 p' (if retained es then 0 else - 1)"
        by auto
      from d1 es(6) idle have "delta p p' (if retained es then 1 else 0)"
        by (auto simp: delta_def p1_def split: if_splits)
      with False res w1 open1 es Some idle show ?thesis
        by (intro exI [of _ "es1 @ es"])
            (auto simp: opened_append retained_append split: if_splits)
    qed
  qed
qed

lemma since_append: "events w' = events w @ es \<Longrightarrow> since w w' = es"
  by (simp add: since_def)

lemma out_remove1:
  assumes "x \<in> set hs"
  shows "int (length (filter P (remove1 x hs))) =
           (if P x then int (length (filter P hs)) - 1 else int (length (filter P hs)))"
proof -
  have eq: "length (filter P (remove1 x hs)) = length (remove1 x (filter P hs))"
    by (simp add: filter_remove1)
  show ?thesis
  proof (cases "P x")
    case True
    with assms have "x \<in> set (filter P hs)" by simp
    then have pos: "0 < length (filter P hs)" by (cases "filter P hs") auto
    from eq \<open>x \<in> set (filter P hs)\<close>
    have "length (filter P (remove1 x hs)) = length (filter P hs) - 1"
      by (simp add: length_remove1)
    with pos have "int (length (filter P (remove1 x hs))) = int (length (filter P hs)) - 1"
      by linarith
    with True show ?thesis by simp
  next
    case False
    with eq show ?thesis by (simp add: length_remove1)
  qed
qed

lemma out_opened:
  assumes "\<forall>h\<in>set hs. snd h = m"
  shows "int (length (filter (\<lambda>h. snd h = n) (hs @ rest))) =
           (if n = m then int (length hs) else 0) + int (length (filter (\<lambda>h. snd h = n) rest))"
proof -
  have "filter (\<lambda>h. snd h = n) hs = (if n = m then hs else [])"
    using assms by (induction hs) auto
  then show ?thesis by simp
qed

lemma release_since:
  "opened (since w (pushDatabaseBack n drv w)) = [] \<and>
   filter isHookCall (since w (pushDatabaseBack n drv w)) = [] \<and>
   (\<forall>n'. n' \<noteq> n \<longrightarrow>
      m_connectionPool (pushDatabaseBack n drv w) n' = m_connectionPool w n') \<and>
   (case m_connectionPool w n of
      None \<Rightarrow> m_connectionPool (pushDatabaseBack n drv w) n = None \<and>
        \<not> retained (since w (pushDatabaseBack n drv w))
    | Some p \<Rightarrow>
        (\<exists>p'. m_connectionPool (pushDatabaseBack n drv w) n = Some p' \<and>
              delta p p' (if retained (since w (pushDatabaseBack n drv w)) then 0 else - 1)))"
proof -
  from release_effect [of n drv w] obtain es where
    es: "events (pushDatabaseBack n drv w) = events w @ es"
    and rest: "filter isHookCall es = []" "opened es = []"
      "\<forall>n'. n' \<noteq> n \<longrightarrow> m_connectionPool (pushDatabaseBack n drv w) n' = m_connectionPool w n'"
      "case m_connectionPool w n of
         None \<Rightarrow> m_connectionPool (pushDatabaseBack n drv w) n = None \<and> \<not> retained es
       | Some p \<Rightarrow>
           (\<exists>p'. m_connectionPool (pushDatabaseBack n drv w) n = Some p' \<and>
                 delta p p' (if retained es then 0 else - 1))"
    by blast
  from es have eq: "since w (pushDatabaseBack n drv w) = es" by (rule since_append)
  from rest show ?thesis unfolding eq by blast
qed

lemma acquire_cb_since:
  "filter isHookCall (since w (database_cb f recv n w)) =
     (case m_connectionPool w n of
        None \<Rightarrow> []
      | Some p \<Rightarrow>
          if pool p = [] then
            if maximuConnections p \<noteq> 0 \<and> connectionCount p \<ge> maximuConnections p
            then []
            else callSetup (setupCb p) (ADatabase (Some (nextDriver w, n)))
          else callReuse (reuseCb p) (ADatabase (Some (last (pool p), n)))) \<and>
   (\<forall>h\<in>set (opened (since w (database_cb f recv n w))). snd h = n) \<and>
   (\<forall>n'. n' \<noteq> n \<longrightarrow>
      m_connectionPool (database_cb f recv n w) n' = m_connectionPool w n') \<and>
   (case m_connectionPool w n of
      None \<Rightarrow> m_connectionPool (database_cb f recv n w) n = None \<and>
        opened (since w (database_cb f recv n w)) = []
    | Some p \<Rightarrow>
        (\<exists>p'. m_connectionPool (database_cb f recv n w) n = Some p' \<and>
              delta p p'
                (if retained (since w (database_cb f recv n w))
                 then int (length (opened (since w (database_cb f recv n w)))) else 0)))"
proof -
  from acquire_cb_effect [of f recv n w] obtain es where
    es: "events (database_cb f recv n w) = events w @ es"
    and rest: "filter isHookCall es =
        (case m_connectionPool w n of
           None \<Rightarrow> []
         | Some p \<Rightarrow>
             if pool p = [] then
               if maximuConnections p \<noteq> 0 \<and> connectionCount p \<ge> maximuConnections p
               then []
               else callSetup (setupCb p) (ADatabase (Some (nextDriver w, n)))
             else callReuse (reuseCb p) (ADatabase (Some (last (pool p), n))))"
      "\<forall>h\<in>set (opened es). snd h = n"
      "\<forall>n'. n' \<noteq> n \<longrightarrow> m_connectionPool (database_cb f recv n w) n' = m_connectionPool w n'"
      "case m_connectionPool w n of
         None \<Rightarrow> m_connectionPool (database_cb f recv n w) n = None \<and> opened es = []
       | Some p \<Rightarrow>
           (\<exists>p'. m_connectionPool (database_cb f recv n w) n = Some p' \<and>
                 delta p p' (if retained es then int (length (opened es)) else 0))"
    by blast
  from es have eq: "since w (database_cb f recv n w) = es" by (rule since_append)
  from rest show ?thesis unfolding eq by blast
qed

lemma count_release:
  assumes "countHolds n s"
  shows "countHolds n (apply_op (Release drv m) s)"
proof (cases "(drv, m) \<in> set (held s)")
  case False
  with assms show ?thesis by simp
next
  case True
  with assms release_since [of "theWorld s" m drv] show ?thesis
    by (cases "n = m")
      (auto simp: countHolds_def checkedOut_def Let_def out_remove1 delta_def
        split: option.splits if_splits)
qed

lemma count_acquire_cb:
  assumes "countHolds n s"
  shows "countHolds n (apply_op (AcquireCb f recv m) s)"
proof -
  have names: "\<forall>h\<in>set (opened (since (theWorld s) (database_cb f recv m (theWorld s)))).
      snd h = m"
    using acquire_cb_since [of "theWorld s" f recv m] by blast
  from assms acquire_cb_since [of "theWorld s" f recv m] show ?thesis
    by (cases "n = m")
      (auto simp: countHolds_def checkedOut_def Let_def out_opened [OF names] delta_def
        split: option.splits if_splits)
qed

lemma count_acquire:
  assumes "countHolds n s"
  shows "countHolds n (apply_op (Acquire m) s)"
  using assms
  by (cases "n = m")
    (auto simp: countHolds_def checkedOut_def database_def store_def emit_def Let_def
      split: option.splits if_splits)

lemma count_create:
  assumes "countHolds n s" and "heldRegistered s"
  shows "countHolds n (apply_op (Create factory m) s)"
proof (cases "m_connectionPool (theWorld s) m")
  case (Some p)
  with assms(1) show ?thesis
    by (auto simp: countHolds_def checkedOut_def create_def emit_def split: option.splits)
next
  case None
  with assms(2) have "filter (\<lambda>h. snd h = m) (held s) = []"
    by (auto simp: heldRegistered_def filter_empty_conv)
  with None assms(1) show ?thesis
    by (auto simp: countHolds_def checkedOut_def create_def newPool_def store_def
        split: option.splits)
qed

lemma count_step:
  assumes "countHolds n s" and "heldRegistered s"
  shows "countHolds n (apply_op x s)"
proof (cases x)
  case (Create factory m)
  with assms show ?thesis by (simp only: count_create)
next
  case (Release drv m)
  with assms show ?thesis by (simp only: count_release)
next
  case (Acquire m)
  with assms show ?thesis by (simp only: count_acquire)
next
  case (AcquireCb f recv m)
  with assms show ?thesis by (simp only: count_acquire_cb)
qed (use assms in \<open>auto simp: countHolds_def checkedOut_def
      setMaxIdleConnections_def setMaxConnections_def setSetupCallback_def
      setReuseCallback_def setDriverState_def destroyObject_def store_def emit_def
      split: option.splits if_splits\<close>)

lemma registered_step:
  assumes "heldRegistered s"
  shows "heldRegistered (apply_op x s)"
proof (cases x)
  case (Release drv m)
  show ?thesis
  proof (cases "(drv, m) \<in> set (held s)")
    case False
    with assms Release show ?thesis by simp
  next
    case True
    have keep: "m_connectionPool (pushDatabaseBack m drv (theWorld s)) k \<noteq> None"
      if "m_connectionPool (theWorld s) k \<noteq> None" for k
      using that release_since [of "theWorld s" m drv]
      by (cases "k = m") (auto split: option.splits)
    with assms True Release show ?thesis
      by (auto simp: heldRegistered_def Let_def dest: notin_set_remove1)
  qed
next
  case (Acquire m)
  with assms show ?thesis
    by (auto simp: heldRegistered_def database_def store_def emit_def Let_def
        split: option.splits if_splits)
next
  case (AcquireCb f recv m)
  have keep: "m_connectionPool (database_cb f recv m (theWorld s)) k \<noteq> None"
    if "m_connectionPool (theWorld s) k \<noteq> None" for k
    using that acquire_cb_since [of "theWorld s" f recv m]
    by (cases "k = m") (auto split: option.splits)
  have new: "m_connectionPool (database_cb f recv m (theWorld s)) (snd h) \<noteq> None"
    if "h \<in> set (opened (since (theWorld s) (database_cb f recv m (theWorld s))))" for h
    using that acquire_cb_since [of "theWorld s" f recv m]
    by (cases "m_connectionPool (theWorld s) m") auto
  from assms AcquireCb keep new show ?thesis
    by (auto simp: heldRegistered_def Let_def)
qed (use assms in \<open>auto simp: heldRegistered_def create_def newPool_def
      setMaxIdleConnections_def setMaxConnections_def setSetupCallback_def
      setReuseCallback_def setDriverState_def destroyObject_def store_def emit_def
      split: option.splits if_splits\<close>)

lemma release_rel:
  "m_connectionPool (pushDatabaseBack m drv w) n = m_connectionPool w n \<or>
   (\<exists>p p' k. m_connectionPool w n = Some p \<and>
      m_connectionPool (pushDatabaseBack m drv w) n = Some p' \<and> delta p p' k)"
  using release_since [of w m drv]
  by (cases "n = m"; cases "m_connectionPool w m") auto

lemma acquire_cb_rel:
  "m_connectionPool (database_cb f recv m w) n = m_connectionPool w n \<or>
   (\<exists>p p' k. m_connectionPool w n = Some p \<and>
      m_connectionPool (database_cb f recv m w) n = Some p' \<and> delta p p' k)"
  using acquire_cb_since [of w f recv m]
  by (cases "n = m"; cases "m_connectionPool w m") auto

lemma idle_rel:
  assumes "idleLimitHolds n s"
    and "m_connectionPool w' n = m_connectionPool (theWorld s) n \<or>
         (\<exists>p p' k. m_connectionPool (theWorld s) n = Some p \<and>
            m_connectionPool w' n = Some p' \<and> delta p p' k)"
  shows "idleLimitHolds n \<lparr>theWorld = w', held = hs\<rparr>"
  using assms by (auto simp: idleLimitHolds_def delta_def split: option.splits)

lemma total_rel:
  assumes "totalLimitHolds n s"
    and "m_connectionPool w' n = m_connectionPool (theWorld s) n \<or>
         (\<exists>p p' k. m_connectionPool (theWorld s) n = Some p \<and>
            m_connectionPool w' n = Some p' \<and> delta p p' k)"
  shows "totalLimitHolds n \<lparr>theWorld = w', held = hs\<rparr>"
  using assms by (auto simp: totalLimitHolds_def delta_def split: option.splits)

lemma idle_step:
  assumes "idleLimitHolds n s" and "keepsIdleLimit n x s"
  shows "idleLimitHolds n (apply_op x s)"
proof (cases x)
  case (Release drv m)
  with assms(1) idle_rel [OF assms(1) release_rel] show ?thesis
    by (simp add: Let_def)
next
  case (AcquireCb f recv m)
  with idle_rel [OF assms(1) acquire_cb_rel] show ?thesis
    by (simp add: Let_def)
qed (use assms in \<open>auto simp: idleLimitHolds_def create_def newPool_def database_def
      setMaxIdleConnections_def setMaxConnections_def setSetupCallback_def
      setReuseCallback_def setDriverState_def destroyObject_def store_def emit_def Let_def
      split: option.splits if_splits\<close>)

lemma total_step:
  assumes "totalLimitHolds n s" and "keepsTotalLimit n x s"
  shows "totalLimitHolds n (apply_op x s)"
proof (cases x)
  case (Release drv m)
  with assms(1) total_rel [OF assms(1) release_rel] show ?thesis
    by (simp add: Let_def)
next
  case (AcquireCb f recv m)
  with total_rel [OF assms(1) acquire_cb_rel] show ?thesis
    by (simp add: Let_def)
qed (use assms in \<open>auto simp: totalLimitHolds_def create_def newPool_def database_def
      setMaxIdleConnections_def setMaxConnections_def setSetupCallback_def
      setReuseCallback_def setDriverState_def destroyObject_def store_def emit_def Let_def
      split: option.splits if_splits\<close>)

lemma count_run:
  "countHolds n s \<Longrightarrow> heldRegistered s \<Longrightarrow> countHolds n (run ops s)"
  by (induction ops arbitrary: s) (simp_all add: count_step registered_step)

lemma idle_run:
  "idleLimitHolds n s \<Longrightarrow> allAlong (keepsIdleLimit n) ops s \<Longrightarrow> idleLimitHolds n (run ops s)"
  by (induction ops arbitrary: s) (simp_all add: idle_step)

lemma total_run:
  "totalLimitHolds n s \<Longrightarrow> allAlong (keepsTotalLimit n) ops s \<Longrightarrow>
   totalLimitHolds n (run ops s)"
  by (induction ops arbitrary: s) (simp_all add: total_step)

lemma hooks_release:
  "filter isHookCall (since w (pushDatabaseBack n drv w)) = []"
  using release_since [of w n drv] by blast

lemma hooks_database_cb:
  "filter isHookCall (since w (database_cb f recv poolName w)) =
     (case m_connectionPool w poolName of
        None \<Rightarrow> []
      | Some iPool \<Rightarrow>
          if pool iPool = [] then
            if maximuConnections iPool \<noteq> 0 \<and> connectionCount iPool \<ge> maximuConnections iPool
            then []
            else callSetup (setupCb iPool) (ADatabase (Some (nextDriver w, poolName)))
          else callReuse (reuseCb iPool) (ADatabase (Some (last (pool iPool), poolName))))"
  using acquire_cb_since [of w f recv poolName] by blast

subsection \<open>Release\<close>

text \<open>
  C1, as amended. A release into an existing pool of a driver that is not disconnected, with
  a valid waiter somewhere in the queue: the queue splits into the waiters before the first
  valid one, that waiter, and the rest. The waiters before it are dropped with it from the
  queue and its continuation is called with a handle on the same driver whose deleter names
  the same pool. If the continuation keeps the handle, that is the whole release: the idle
  list and the connection count are as before and no driver is deleted. If it keeps none,
  the handle dies when the continuation returns and the driver is released once more, in
  the same call, from the world the hand-over left.
\<close>

theorem release_to_waiter:
  assumes "m_connectionPool w connectionName = Some iPool"
    and "driverState w driver \<noteq> Disconnected"
    and "\<exists>c\<in>set (connectionQueue iPool). validWaiter (destroyed w) c"
  shows "\<exists>skipped client rest f.
           connectionQueue iPool = skipped @ client # rest \<and>
           (\<forall>c\<in>set skipped. \<not> validWaiter (destroyed w) c) \<and>
           validWaiter (destroyed w) client \<and> cb client = Some f \<and>
           (let handed =
                  w\<lparr>m_connectionPool :=
                       (m_connectionPool w)(connectionName \<mapsto>
                          iPool\<lparr>connectionQueue := rest\<rparr>),
                    events := events w @
                       [EvClientCb f (ADatabase (Some (driver, connectionName)))]\<rparr>
            in pushDatabaseBack connectionName driver w =
                 (if keeps f then handed
                  else pushDatabaseBack connectionName driver handed))"
proof -
  from assms(3) obtain skipped client rest
    where split: "connectionQueue iPool = skipped @ client # rest"
      and valid: "validWaiter (destroyed w) client"
      and skipped: "\<forall>c\<in>set skipped. \<not> validWaiter (destroyed w) c"
    using split_list_first_prop [of "connectionQueue iPool" "validWaiter (destroyed w)"]
    by blast
  from valid obtain f where f: "cb client = Some f"
    and "dequeueClient (destroyed w) (client # rest) = Some (f, rest)"
    using dequeueClient_valid by blast
  with split skipped
  have "dequeueClient (destroyed w) (connectionQueue iPool) = Some (f, rest)"
    by (simp add: dequeueClient_skip)
  note found = this
  define handed where "handed =
    w\<lparr>m_connectionPool :=
         (m_connectionPool w)(connectionName \<mapsto> iPool\<lparr>connectionQueue := rest\<rparr>),
      events := events w @ [EvClientCb f (ADatabase (Some (driver, connectionName)))]\<rparr>"
  have stored: "store connectionName (iPool\<lparr>connectionQueue := rest\<rparr>)
      (emit [EvClientCb f (ADatabase (Some (driver, connectionName)))] w) = handed"
    by (simp add: handed_def store_def emit_def)
  from assms(1,2) found
  have "pushDatabaseBack connectionName driver w =
          (if keeps f then handed else pushDatabaseBack connectionName driver handed)"
    by (subst pushDatabaseBack.simps) (simp add: Let_def stored)
  with split skipped valid f show ?thesis
    unfolding Let_def handed_def by blast
qed

text \<open>
  In scenario \<open>p1\<close> the release of driver 0 passes it to the third request, the first valid
  one, whose continuation keeps it; the fourth stays queued.
\<close>

theorem release_to_waiter_witness:
  "(\<exists>skipped client rest f.
      [\<lparr>cb = Some (Callback 11 True), receiver = Some 3, checkReceiver = True\<rparr>,
       \<lparr>cb = None, receiver = None, checkReceiver = False\<rparr>,
       \<lparr>cb = Some (Callback 12 True), receiver = None, checkReceiver = False\<rparr>,
       \<lparr>cb = Some (Callback 13 True), receiver = None, checkReceiver = False\<rparr>] =
        skipped @ client # rest \<and>
      (\<forall>c\<in>set skipped. \<not> validWaiter {3} c) \<and>
      validWaiter {3} client \<and> cb client = Some f \<and>
      (let handed =
             (theWorld scenario_p1)
               \<lparr>m_connectionPool :=
                  (m_connectionPool (theWorld scenario_p1))(''p1'' \<mapsto>
                     \<lparr>driverFactory = 7, pool = [], connectionQueue = rest,
                      setupCb = None, reuseCb = None, maxIdleConnections = 1,
                      maximuConnections = 1, connectionCount = 1\<rparr>),
                events := events (theWorld scenario_p1) @
                  [EvClientCb f (ADatabase (Some (0, ''p1'')))]\<rparr>
       in pushDatabaseBack ''p1'' 0 (theWorld scenario_p1) =
            (if keeps f then handed else pushDatabaseBack ''p1'' 0 handed))) \<and>
   since (theWorld scenario_p1) (pushDatabaseBack ''p1'' 0 (theWorld scenario_p1)) =
     [EvClientCb (Callback 12 True) (ADatabase (Some (0, ''p1'')))] \<and>
   m_connectionPool (pushDatabaseBack ''p1'' 0 (theWorld scenario_p1)) ''p1'' =
     Some \<lparr>driverFactory = 7, pool = [],
           connectionQueue =
             [\<lparr>cb = Some (Callback 13 True), receiver = None, checkReceiver = False\<rparr>],
           setupCb = None, reuseCb = None, maxIdleConnections = 1,
           maximuConnections = 1, connectionCount = 1\<rparr>"
proof -
  have "\<exists>c\<in>set [\<lparr>cb = Some (Callback 11 True), receiver = Some 3, checkReceiver = True\<rparr>,
                 \<lparr>cb = None, receiver = None, checkReceiver = False\<rparr>,
                 \<lparr>cb = Some (Callback 12 True), receiver = None, checkReceiver = False\<rparr>,
                 \<lparr>cb = Some (Callback 13 True), receiver = None, checkReceiver = False\<rparr>].
          validWaiter {3} c"
    by (simp add: validWaiter_def isNull_def)
  with release_to_waiter [OF scenario_p1_pool, of 0] show ?thesis
    by (simp add: scenario_p1_env scenario_p1_pool pushDatabaseBack.simps since_def
        store_def emit_def isNull_def)
qed

text \<open>
  Without the condition on the continuation the claim fails: in scenario \<open>p7\<close> a valid
  waiter is queued and is called, yet the release ends with driver 0 on the idle list; with
  the idle limit at zero it ends with the driver deleted and the count down from one to zero.
\<close>

theorem release_to_waiter_counterexample:
  "m_connectionPool (theWorld scenario_p7) ''p7'' =
     Some \<lparr>driverFactory = 7, pool = [],
           connectionQueue =
             [\<lparr>cb = Some (Callback 12 False), receiver = None, checkReceiver = False\<rparr>],
           setupCb = None, reuseCb = None, maxIdleConnections = 1,
           maximuConnections = 1, connectionCount = 1\<rparr> \<and>
   driverState (theWorld scenario_p7) 0 = Connected \<and>
   validWaiter (destroyed (theWorld scenario_p7))
     \<lparr>cb = Some (Callback 12 False), receiver = None, checkReceiver = False\<rparr> \<and>
   since (theWorld scenario_p7) (pushDatabaseBack ''p7'' 0 (theWorld scenario_p7)) =
     [EvClientCb (Callback 12 False) (ADatabase (Some (0, ''p7''))),
      EvLog QtDebugMsg ''Returning database connection to pool''] \<and>
   m_connectionPool (pushDatabaseBack ''p7'' 0 (theWorld scenario_p7)) ''p7'' =
     Some \<lparr>driverFactory = 7, pool = [0], connectionQueue = [],
           setupCb = None, reuseCb = None, maxIdleConnections = 1,
           maximuConnections = 1, connectionCount = 1\<rparr> \<and>
   m_connectionPool
     (pushDatabaseBack ''p7'' 0 (setMaxIdleConnections 0 ''p7'' (theWorld scenario_p7)))
     ''p7'' =
     Some \<lparr>driverFactory = 7, pool = [], connectionQueue = [],
           setupCb = None, reuseCb = None, maxIdleConnections = 0,
           maximuConnections = 1, connectionCount = 0\<rparr>"
  by (simp add: scenario_p7_pool scenario_p7_env validWaiter_def isNull_def
      pushDatabaseBack.simps setMaxIdleConnections_def since_def store_def emit_def)

text \<open>
  C4. A release into an existing pool of a driver that is not disconnected, with no valid
  waiter in the queue: when the idle list already has \<open>maxIdleConnections\<close> entries or more,
  the driver is deleted and the connection count goes down by one; otherwise the driver is
  appended to the idle list, the count stays, and nothing is deleted. Either way the queue,
  which held only invalid waiters, is left empty.
\<close>

theorem release_no_waiter:
  assumes "m_connectionPool w connectionName = Some iPool"
    and "driverState w driver \<noteq> Disconnected"
    and "\<forall>c\<in>set (connectionQueue iPool). \<not> validWaiter (destroyed w) c"
  shows "pushDatabaseBack connectionName driver w =
           (if int (length (pool iPool)) \<ge> maxIdleConnections iPool then
              w\<lparr>m_connectionPool :=
                   (m_connectionPool w)(connectionName \<mapsto>
                      iPool\<lparr>connectionQueue := [],
                            connectionCount := connectionCount iPool - 1\<rparr>),
                events := events w @
                   [EvLog QtDebugMsg ''Deleting database connection due max idle connections'',
                    EvDelete driver]\<rparr>
            else
              w\<lparr>m_connectionPool :=
                   (m_connectionPool w)(connectionName \<mapsto>
                      iPool\<lparr>connectionQueue := [], pool := pool iPool @ [driver]\<rparr>),
                events := events w @
                   [EvLog QtDebugMsg ''Returning database connection to pool'']\<rparr>)"
  using assms dequeueClient_none [of "connectionQueue iPool" "destroyed w"]
  by (simp add: pushDatabaseBack.simps store_def emit_def)

text \<open>
  In scenario \<open>p2\<close> the idle limit is zero: the released driver is deleted and the count
  drops to zero. With the idle limit raised to one, the same release puts it on the idle list.
\<close>

theorem release_no_waiter_witness:
  "\<not> validWaiter {3} \<lparr>cb = Some (Callback 11 True), receiver = Some 3, checkReceiver = True\<rparr> \<and>
   pushDatabaseBack ''p2'' 0 (theWorld scenario_p2) =
     (theWorld scenario_p2)
       \<lparr>m_connectionPool :=
          (m_connectionPool (theWorld scenario_p2))(''p2'' \<mapsto>
             \<lparr>driverFactory = 7, pool = [], connectionQueue = [],
              setupCb = None, reuseCb = None, maxIdleConnections = 0,
              maximuConnections = 1, connectionCount = 0\<rparr>),
        events := events (theWorld scenario_p2) @
          [EvLog QtDebugMsg ''Deleting database connection due max idle connections'',
           EvDelete 0]\<rparr> \<and>
   map_option pool
     (m_connectionPool
        (pushDatabaseBack ''p2'' 0 (setMaxIdleConnections 1 ''p2'' (theWorld scenario_p2)))
        ''p2'') = Some [0]"
proof -
  have "\<forall>c\<in>set [\<lparr>cb = Some (Callback 11 True), receiver = Some 3, checkReceiver = True\<rparr>].
          \<not> validWaiter {3} c"
    by (simp add: validWaiter_def isNull_def)
  with release_no_waiter [OF scenario_p2_pool, of 0] show ?thesis
    by (simp add: scenario_p2_env scenario_p2_pool pushDatabaseBack.simps
        setMaxIdleConnections_def store_def emit_def isNull_def)
qed

text \<open>
  C5. A release into an existing pool of a driver whose state is \<open>Disconnected\<close>: the driver
  is deleted and the connection count goes down by one. The idle list and the queue of the
  pool are as before, every other pool is as before, and no function object is called.
\<close>

theorem release_disconnected:
  assumes "m_connectionPool w connectionName = Some iPool"
    and "driverState w driver = Disconnected"
  shows "pushDatabaseBack connectionName driver w =
           w\<lparr>m_connectionPool :=
                (m_connectionPool w)(connectionName \<mapsto>
                   iPool\<lparr>connectionCount := connectionCount iPool - 1\<rparr>),
             events := events w @
                [EvLog QtDebugMsg ''Deleting database connection as is not open'',
                 EvDelete driver]\<rparr>"
  using assms by (simp add: pushDatabaseBack.simps store_def emit_def)

text \<open>
  Scenario \<open>p1\<close> with the connection dead: driver 0 is deleted, the count drops to zero and
  the four queued requests stay where they are.
\<close>

theorem release_disconnected_witness:
  "driverState (setDriverState 0 Disconnected (theWorld scenario_p1)) 0 = Disconnected \<and>
   pushDatabaseBack ''p1'' 0 (setDriverState 0 Disconnected (theWorld scenario_p1)) =
     (setDriverState 0 Disconnected (theWorld scenario_p1))
       \<lparr>m_connectionPool :=
          (m_connectionPool (setDriverState 0 Disconnected (theWorld scenario_p1)))(''p1'' \<mapsto>
             \<lparr>driverFactory = 7, pool = [],
              connectionQueue =
                [\<lparr>cb = Some (Callback 11 True), receiver = Some 3, checkReceiver = True\<rparr>,
                 \<lparr>cb = None, receiver = None, checkReceiver = False\<rparr>,
                 \<lparr>cb = Some (Callback 12 True), receiver = None, checkReceiver = False\<rparr>,
                 \<lparr>cb = Some (Callback 13 True), receiver = None, checkReceiver = False\<rparr>],
              setupCb = None, reuseCb = None, maxIdleConnections = 1,
              maximuConnections = 1, connectionCount = 0\<rparr>),
        events := events (setDriverState 0 Disconnected (theWorld scenario_p1)) @
          [EvLog QtDebugMsg ''Deleting database connection as is not open'', EvDelete 0]\<rparr>"
proof -
  have pool: "m_connectionPool (setDriverState 0 Disconnected (theWorld scenario_p1)) ''p1'' =
      m_connectionPool (theWorld scenario_p1) ''p1''"
    and dead: "driverState (setDriverState 0 Disconnected (theWorld scenario_p1)) 0 = Disconnected"
    by (simp_all add: setDriverState_def)
  from release_disconnected [OF pool [unfolded scenario_p1_pool] dead] dead
  show ?thesis by simp
qed

text \<open>
  C6. A release whose pool name is not in the hash: the driver is deleted and that is all.
  The hash is as before, so no entry is made and no count is touched. In particular, after
  \<^verbatim>\<open>remove\<close> of a name a release under that name deletes the driver and the name stays
  absent.
\<close>

theorem release_unregistered:
  "(m_connectionPool w connectionName = None \<longrightarrow>
      pushDatabaseBack connectionName driver w = w\<lparr>events := events w @ [EvDelete driver]\<rparr>) \<and>
   pushDatabaseBack connectionName driver (remove connectionName w) =
      (remove connectionName w)\<lparr>events := events w @ [EvDelete driver]\<rparr> \<and>
   m_connectionPool (pushDatabaseBack connectionName driver (remove connectionName w))
      connectionName = None"
  by (simp add: pushDatabaseBack.simps emit_def remove_def)

text \<open>Scenario \<open>p3\<close>: the connection outlives its pool and is deleted on release.\<close>

theorem release_unregistered_witness:
  "m_connectionPool scenario_p3 ''p3'' = None \<and>
   pushDatabaseBack ''p3'' 0 scenario_p3 =
     scenario_p3\<lparr>events := events scenario_p3 @ [EvDelete 0]\<rparr>"
proof -
  have absent: "m_connectionPool scenario_p3 ''p3'' = None"
    by (simp add: scenario_p3_def remove_def)
  with release_unregistered [of scenario_p3 "''p3''" 0] show ?thesis by simp
qed

subsection \<open>The registry\<close>

text \<open>
  C8. \<^verbatim>\<open>create\<close> under a name that is already in the hash leaves the hash as it is: the
  entry keeps its factory, limits, hooks, idle list, queue and count, and no entry is added.
  The call only logs a warning and returns normally.
\<close>

theorem create_registered:
  assumes "m_connectionPool w poolName = Some iPool"
  shows "create factory poolName w =
           w\<lparr>events := events w @
              [EvLog QtWarningMsg ''Ignoring addDatabase, connectionName already available'']\<rparr> \<and>
         m_connectionPool (create factory poolName w) = m_connectionPool w"
  using assms by (simp add: create_def emit_def)

text \<open>Scenario \<open>p4\<close>: a second \<^verbatim>\<open>create\<close> with another factory keeps the first pool.\<close>

theorem create_registered_witness:
  "m_connectionPool scenario_p4 ''p4'' =
     Some \<lparr>driverFactory = 7, pool = [], connectionQueue = [], setupCb = None,
           reuseCb = None, maxIdleConnections = 1, maximuConnections = 5,
           connectionCount = 0\<rparr> \<and>
   create 8 ''p4'' scenario_p4 =
     scenario_p4\<lparr>events := events scenario_p4 @
        [EvLog QtWarningMsg ''Ignoring addDatabase, connectionName already available'']\<rparr> \<and>
   m_connectionPool (create 8 ''p4'' scenario_p4) = m_connectionPool scenario_p4"
proof -
  have entry: "m_connectionPool scenario_p4 ''p4'' =
     Some \<lparr>driverFactory = 7, pool = [], connectionQueue = [], setupCb = None,
           reuseCb = None, maxIdleConnections = 1, maximuConnections = 5,
           connectionCount = 0\<rparr>"
    by (simp add: scenario_p4_def init_world_def create_def newPool_def
        setMaxConnections_def store_def)
  from create_registered [OF entry, of 8] entry show ?thesis by simp
qed

text \<open>
  C10. \<^verbatim>\<open>remove\<close> erases the entry and does nothing else: the trace is as before, so no
  driver is deleted and no function object is called. What the entry held leaves no mark on
  the world: the result is the same whatever idle list and queue were stored under the name.
\<close>

theorem remove_erases_only:
  "m_connectionPool (remove poolName w) poolName = None \<and>
   events (remove poolName w) = events w \<and>
   since w (remove poolName w) = [] \<and>
   remove poolName (store poolName iPool w) = remove poolName w"
  by (simp add: remove_def store_def since_def)

text \<open>Scenario \<open>p1\<close> removed with its four requests queued.\<close>

theorem remove_erases_only_witness:
  "m_connectionPool (remove ''p1'' (theWorld scenario_p1)) ''p1'' = None \<and>
   events (remove ''p1'' (theWorld scenario_p1)) = events (theWorld scenario_p1) \<and>
   since (theWorld scenario_p1) (remove ''p1'' (theWorld scenario_p1)) = []"
  using remove_erases_only [of "''p1''" "theWorld scenario_p1"] by simp

subsection \<open>Acquisition\<close>

text \<open>
  C7. The synchronous \<^verbatim>\<open>database\<close> on an existing pool with an empty idle list, a nonzero
  total limit and a count that has reached it: the world is as before but for the trace,
  which gains the warning and the \<^verbatim>\<open>open\<close> of the handle; no driver is created, and the
  handle returned has a null pointer.
\<close>

theorem database_exhausted:
  assumes "m_connectionPool w poolName = Some iPool"
    and "pool iPool = []"
    and "maximuConnections iPool \<noteq> 0"
    and "connectionCount iPool \<ge> maximuConnections iPool"
  shows "database poolName w =
           (ADatabase None,
            w\<lparr>events := events w @
                 [EvLog QtWarningMsg ''Maximum number of connections reached'',
                  EvOpen (ADatabase None)]\<rparr>)"
  using assms by (simp add: database_def emit_def)

text \<open>Scenario \<open>p1\<close>: the total limit is one and the one connection is out.\<close>

theorem database_exhausted_witness:
  "database ''p1'' (theWorld scenario_p1) =
     (ADatabase None,
      (theWorld scenario_p1)\<lparr>events := events (theWorld scenario_p1) @
         [EvLog QtWarningMsg ''Maximum number of connections reached'',
          EvOpen (ADatabase None)]\<rparr>)"
  using database_exhausted [OF scenario_p1_pool] by simp

text \<open>
  C3, as amended. An acquisition on an existing pool, by either overload. When the idle list
  is not empty its last driver, the one appended last by a release, is taken off, the reuse
  hook is called on the handle if it is set, and the handle is opened. When the idle list is
  empty and the total limit is zero or above the count, the count goes up by one, the
  factory's \<^verbatim>\<open>createRawDriver\<close> is called, the setup hook is called on the handle if it is
  set, and the handle is opened. The synchronous overload then returns the handle. The other
  overload calls the continuation with it if the continuation is not empty; and when neither
  the hook nor the continuation keeps the handle, the driver is released again before the
  call is over.
\<close>

theorem acquire_reuse_or_create:
  assumes "m_connectionPool w poolName = Some iPool"
  shows
    "(pool iPool = idle @ [driver] \<longrightarrow>
        (let db = ADatabase (Some (driver, poolName));
             opened_db =
               store poolName (iPool\<lparr>pool := idle\<rparr>)
                 (emit ([EvLog QtDebugMsg ''Reusing a database connection from pool''] @
                        callReuse (reuseCb iPool) db @ [EvOpen db]) w);
             called = emit (callClient f db) opened_db
         in database poolName w = (db, opened_db) \<and>
            database_cb f recv poolName w =
              (if keptBy (reuseCb iPool) \<or> keptBy f then called
               else pushDatabaseBack poolName driver called))) \<and>
     (pool iPool = [] \<and>
      (maximuConnections iPool = 0 \<or> connectionCount iPool < maximuConnections iPool) \<longrightarrow>
        (let db = ADatabase (Some (nextDriver w, poolName));
             counted =
               store poolName (iPool\<lparr>connectionCount := connectionCount iPool + 1\<rparr>)
                 (w\<lparr>nextDriver := Suc (nextDriver w)\<rparr>);
             called =
               emit ([EvLog QtDebugMsg ''Creating a database connection for pool'',
                      EvCreateRawDriver (driverFactory iPool) (nextDriver w)] @
                     callSetup (setupCb iPool) db @ [EvOpen db] @ callClient f db) counted
         in database poolName w =
              (db, emit ([EvCreateRawDriver (driverFactory iPool) (nextDriver w),
                          EvLog QtDebugMsg ''Creating a database connection for pool''] @
                         callSetup (setupCb iPool) db @ [EvOpen db]) counted) \<and>
            database_cb f recv poolName w =
              (if keptBy (setupCb iPool) \<or> keptBy f then called
               else pushDatabaseBack poolName (nextDriver w) called)))"
proof -
  have swap: "store n p (emit es v) = emit es (store n p v)" for n p es v
    by (simp add: store_def emit_def)
  have join: "emit es2 (emit es1 v) = emit (es1 @ es2) v" for es1 es2 v
    by (simp add: emit_def)
  from assms show ?thesis
    by (auto simp: database_def database_cb_def Let_def swap join)
qed

text \<open>
  Scenario \<open>p5\<close>: of the idle drivers 0 and 1 the later one is reused and hook 22 runs.
  Scenario \<open>p6\<close>: driver 0 is created, the count becomes one and hook 21 runs. Scenario
  \<open>p4\<close> with a continuation that keeps nothing: driver 0 is created, passed to the
  continuation and, being still disconnected when the handle dies, deleted.
\<close>

theorem acquire_reuse_or_create_witness:
  "database ''p5'' (theWorld scenario_p5) =
     (ADatabase (Some (1, ''p5'')),
      store ''p5''
        \<lparr>driverFactory = 7, pool = [0], connectionQueue = [],
         setupCb = Some (Callback 21 True), reuseCb = Some (Callback 22 True),
         maxIdleConnections = 2, maximuConnections = 0, connectionCount = 2\<rparr>
        (emit [EvLog QtDebugMsg ''Reusing a database connection from pool'',
               EvReuseCb (Callback 22 True) (ADatabase (Some (1, ''p5''))),
               EvOpen (ADatabase (Some (1, ''p5'')))] (theWorld scenario_p5))) \<and>
   since (theWorld scenario_p5)
     (database_cb (Some (Callback 30 True)) None ''p5'' (theWorld scenario_p5)) =
     [EvLog QtDebugMsg ''Reusing a database connection from pool'',
      EvReuseCb (Callback 22 True) (ADatabase (Some (1, ''p5''))),
      EvOpen (ADatabase (Some (1, ''p5''))),
      EvClientCb (Callback 30 True) (ADatabase (Some (1, ''p5'')))] \<and>
   database ''p6'' scenario_p6 =
     (ADatabase (Some (0, ''p6'')),
      emit [EvCreateRawDriver 7 0,
            EvLog QtDebugMsg ''Creating a database connection for pool'',
            EvSetupCb (Callback 21 True) (ADatabase (Some (0, ''p6''))),
            EvOpen (ADatabase (Some (0, ''p6'')))]
        (store ''p6''
           \<lparr>driverFactory = 7, pool = [], connectionQueue = [],
            setupCb = Some (Callback 21 True), reuseCb = None, maxIdleConnections = 1,
            maximuConnections = 3, connectionCount = 1\<rparr>
           (scenario_p6\<lparr>nextDriver := 1\<rparr>))) \<and>
   since scenario_p4 (database_cb (Some (Callback 30 False)) None ''p4'' scenario_p4) =
     [EvLog QtDebugMsg ''Creating a database connection for pool'',
      EvCreateRawDriver 7 0,
      EvOpen (ADatabase (Some (0, ''p4''))),
      EvClientCb (Callback 30 False) (ADatabase (Some (0, ''p4''))),
      EvLog QtDebugMsg ''Deleting database connection as is not open'',
      EvDelete 0]"
  using acquire_reuse_or_create [OF scenario_p5_pool, of "[0]" 1 "Some (Callback 30 True)" None]
    acquire_reuse_or_create [OF scenario_p6_pool(1), of "[]" 0 "Some (Callback 30 True)" None]
    acquire_reuse_or_create [OF scenario_p4_pool(1), of "[]" 0 "Some (Callback 30 False)" None]
  by (simp add: scenario_p6_pool(2) scenario_p4_pool Let_def callReuse_def callSetup_def
      callClient_def keptBy_def emit_def store_def since_def pushDatabaseBack.simps)

text \<open>
  The claim that the handle is returned in every acquisition fails for the overload taking a
  continuation when the continuation is empty: in scenario \<open>p4\<close> the driver is created and
  opened, no function object is called, nothing keeps the handle, and the call ends with
  the driver deleted and the count back at zero.
\<close>

theorem acquire_reuse_or_create_counterexample:
  "m_connectionPool scenario_p4 ''p4'' =
     Some \<lparr>driverFactory = 7, pool = [], connectionQueue = [], setupCb = None,
           reuseCb = None, maxIdleConnections = 1, maximuConnections = 5,
           connectionCount = 0\<rparr> \<and>
   since scenario_p4 (database_cb None None ''p4'' scenario_p4) =
     [EvLog QtDebugMsg ''Creating a database connection for pool'',
      EvCreateRawDriver 7 0,
      EvOpen (ADatabase (Some (0, ''p4''))),
      EvLog QtDebugMsg ''Deleting database connection as is not open'',
      EvDelete 0] \<and>
   \<not> passedOn (since scenario_p4 (database_cb None None ''p4'' scenario_p4)) \<and>
   \<not> retained (since scenario_p4 (database_cb None None ''p4'' scenario_p4)) \<and>
   m_connectionPool (database_cb None None ''p4'' scenario_p4) ''p4'' =
     Some \<lparr>driverFactory = 7, pool = [], connectionQueue = [], setupCb = None,
           reuseCb = None, maxIdleConnections = 1, maximuConnections = 5,
           connectionCount = 0\<rparr>"
  by (simp add: scenario_p4_pool database_cb_def pushDatabaseBack.simps Let_def
      callSetup_def callClient_def keptBy_def emit_def store_def since_def)

text \<open>
  C9. No release calls through \<^verbatim>\<open>setupCb\<close> or \<^verbatim>\<open>reuseCb\<close>, whether or not it passes
  the driver to a waiter. Of all entry points only the two overloads of \<^verbatim>\<open>database\<close> do:
  the setup hook exactly when a driver is created, the reuse hook exactly when an idle driver
  is taken, each only if set.
\<close>

theorem hooks_only_on_acquisition:
  "filter isHookCall (since w (pushDatabaseBack poolName driver w)) = [] \<and>
   filter isHookCall (since w (snd (database poolName w))) =
     (case m_connectionPool w poolName of
        None \<Rightarrow> []
      | Some iPool \<Rightarrow>
          if pool iPool = [] then
            if maximuConnections iPool \<noteq> 0 \<and> connectionCount iPool \<ge> maximuConnections iPool
            then []
            else callSetup (setupCb iPool) (ADatabase (Some (nextDriver w, poolName)))
          else callReuse (reuseCb iPool) (ADatabase (Some (last (pool iPool), poolName)))) \<and>
   filter isHookCall (since w (database_cb f recv poolName w)) =
     (case m_connectionPool w poolName of
        None \<Rightarrow> []
      | Some iPool \<Rightarrow>
          if pool iPool = [] then
            if maximuConnections iPool \<noteq> 0 \<and> connectionCount iPool \<ge> maximuConnections iPool
            then []
            else callSetup (setupCb iPool) (ADatabase (Some (nextDriver w, poolName)))
          else callReuse (reuseCb iPool) (ADatabase (Some (last (pool iPool), poolName)))) \<and>
   filter isHookCall (since w (create factory poolName w)) = [] \<and>
   filter isHookCall (since w (remove poolName w)) = [] \<and>
   filter isHookCall (since w (setMaxIdleConnections maxv poolName w)) = [] \<and>
   filter isHookCall (since w (setMaxConnections maxv poolName w)) = [] \<and>
   filter isHookCall (since w (setSetupCallback g poolName w)) = [] \<and>
   filter isHookCall (since w (setReuseCallback g poolName w)) = []"
proof -
  have "filter isHookCall (since w (snd (database poolName w))) =
     (case m_connectionPool w poolName of
        None \<Rightarrow> []
      | Some iPool \<Rightarrow>
          if pool iPool = [] then
            if maximuConnections iPool \<noteq> 0 \<and> connectionCount iPool \<ge> maximuConnections iPool
            then []
            else callSetup (setupCb iPool) (ADatabase (Some (nextDriver w, poolName)))
          else callReuse (reuseCb iPool) (ADatabase (Some (last (pool iPool), poolName))))"
    by (simp add: since_def database_def store_def emit_def Let_def split: option.splits)
  moreover have "filter isHookCall (since w (create factory poolName w)) = []"
    "filter isHookCall (since w (remove poolName w)) = []"
    "filter isHookCall (since w (setMaxIdleConnections maxv poolName w)) = []"
    "filter isHookCall (since w (setMaxConnections maxv poolName w)) = []"
    "filter isHookCall (since w (setSetupCallback g poolName w)) = []"
    "filter isHookCall (since w (setReuseCallback g poolName w)) = []"
    by (simp_all add: since_def create_def remove_def setMaxIdleConnections_def
        setMaxConnections_def setSetupCallback_def setReuseCallback_def store_def emit_def
        split: option.splits)
  ultimately show ?thesis
    using hooks_release [of w poolName driver] hooks_database_cb [of w f recv poolName]
    by blast
qed

text \<open>
  The release of scenario \<open>p1\<close>, which passes driver 0 to a waiter, calls no hook; the reuse
  in \<open>p5\<close> calls hook 22 and the creation in \<open>p6\<close> hook 21.
\<close>

theorem hooks_only_on_acquisition_witness:
  "filter isHookCall
     (since (theWorld scenario_p1) (pushDatabaseBack ''p1'' 0 (theWorld scenario_p1))) = [] \<and>
   filter isHookCall
     (since (theWorld scenario_p5) (snd (database ''p5'' (theWorld scenario_p5)))) =
     [EvReuseCb (Callback 22 True) (ADatabase (Some (1, ''p5'')))] \<and>
   filter isHookCall
     (since scenario_p6 (database_cb (Some (Callback 30 True)) None ''p6'' scenario_p6)) =
     [EvSetupCb (Callback 21 True) (ADatabase (Some (0, ''p6'')))]"
  using hooks_only_on_acquisition [of "theWorld scenario_p1" "''p1''" 0]
    hooks_only_on_acquisition [of "theWorld scenario_p5" "''p5''"]
    hooks_only_on_acquisition [of scenario_p6 "''p6''" _ "Some (Callback 30 True)" None]
  by (simp add: scenario_p5_pool scenario_p6_pool callReuse_def callSetup_def)

subsection \<open>Invariants\<close>

text \<open>
  C2, as amended. On one thread, from the empty hash, after any sequence of \<^verbatim>\<open>create\<close>,
  the two kinds of acquisition, releases of held handles, the four setters, and drivers and
  receivers changing under the pool, for the pool of any one name: the count equals the
  number of idle drivers plus the number of handles checked out; the idle list is within
  the idle limit provided no \<^verbatim>\<open>setMaxIdleConnections\<close> for this pool put the limit below
  the number of idle drivers the pool had then; and the count is within a nonzero total
  limit provided no \<^verbatim>\<open>setMaxConnections\<close> for this pool put a nonzero limit below the
  count the pool had then. What the setters did to other pools does not matter.
\<close>

theorem pool_invariants:
  "countHolds n (run ops init_system) \<and>
   (allAlong (keepsIdleLimit n) ops init_system \<longrightarrow> idleLimitHolds n (run ops init_system)) \<and>
   (allAlong (keepsTotalLimit n) ops init_system \<longrightarrow> totalLimitHolds n (run ops init_system))"
proof -
  have "countHolds n init_system" "heldRegistered init_system"
    "idleLimitHolds n init_system" "totalLimitHolds n init_system"
    by (simp_all add: countHolds_def heldRegistered_def idleLimitHolds_def
        totalLimitHolds_def init_system_def init_world_def)
  then show ?thesis
    by (simp add: count_run idle_run total_run)
qed

text \<open>
  In the third run pool \<open>p\<close> keeps its limits although the idle limit of pool \<open>q\<close> was put
  below its idle list on the way.
\<close>

theorem pool_invariants_witness:
  "allAlong (keepsIdleLimit ''p'') steady init_system \<and>
   allAlong (keepsTotalLimit ''p'') steady init_system \<and>
   \<not> allAlong (keepsIdleLimit ''q'') steady init_system \<and>
   countHolds ''p'' (run steady init_system) \<and>
   idleLimitHolds ''p'' (run steady init_system) \<and>
   totalLimitHolds ''p'' (run steady init_system) \<and>
   countHolds ''q'' (run steady init_system)"
proof -
  have "allAlong (keepsIdleLimit ''p'') steady init_system"
    and "allAlong (keepsTotalLimit ''p'') steady init_system"
    and "\<not> allAlong (keepsIdleLimit ''q'') steady init_system"
    by (simp_all add: steady_def run_defs)
  with pool_invariants [of "''p''" steady] pool_invariants [of "''q''" steady]
  show ?thesis by simp
qed

text \<open>
  The claim as the specification has it, with no condition on the setters, fails. After the
  first run the pool has one idle driver under an idle limit of zero, and the last operation
  was a release that had completed; after the second its count is two under a total limit of
  one. The setters store the new limit and do not look at the idle list or the count.
\<close>

theorem pool_invariants_counterexample:
  "\<not> idleLimitHolds ''p'' (run lowered_idle init_system) \<and>
   \<not> invariant ''p'' (run lowered_idle init_system) \<and>
   \<not> totalLimitHolds ''p'' (run lowered_total init_system) \<and>
   \<not> invariant ''p'' (run lowered_total init_system)"
  by (simp add: invariant_def idleLimitHolds_def totalLimitHolds_def
      lowered_idle_pool lowered_total_pool)

end
